theory Spec2Isabelle
  imports Main "HOL-Library.Word"
begin

section \<open>Thundercracker simulator: the master-side system (system_mc.cpp)\<close>

text \<open>
  A shallow embedding of \<^verbatim>\<open>src/emulator/src/system_mc.cpp\<close>: the radio transaction
  \<^verbatim>\<open>SystemMC::doRadioPacket\<close> with \<^verbatim>\<open>beginPacket\<close>, \<^verbatim>\<open>endPacket\<close> and
  \<^verbatim>\<open>getCubeForAddress\<close>, the tick conversion \<^verbatim>\<open>SysTime::ticks\<close>, and the flash
  installer \<^verbatim>\<open>SystemMC::installELF\<close> with \<^verbatim>\<open>start\<close> and \<^verbatim>\<open>stop\<close>.

  Calls that leave the file (the cube synchronisation, \<^verbatim>\<open>RadioManager\<close>,
  \<^verbatim>\<open>FlashDevice\<close>, \<^verbatim>\<open>FlashBlock\<close>, the thread library) are recorded, in
  order and with their arguments, in the field \<open>trace\<close> of the state. \<^verbatim>\<open>LOG\<close>
  output changes no state and is left out. The streams of the C library that
  \<^verbatim>\<open>installELF\<close> reads may end, fail or go on without end, and a call of
  \<^verbatim>\<open>FlashDevice::write\<close> may fail to return; \<^verbatim>\<open>installELF\<close> is therefore a
  partial function.
\<close>

subsection \<open>Data\<close>

type_synonym u8 = "8 word"
type_synonym u32 = "32 word"
type_synonym u64 = "64 word"

text \<open>\<^verbatim>\<open>RadioAddress\<close>: a channel and the id bytes.\<close>

record RadioAddress =
  channel :: u8
  addr_id :: "u8 list"

text \<open>\<^verbatim>\<open>PacketBuffer\<close>: the bytes a pointer refers to, and a length.\<close>

record PacketBuffer =
  bytes :: "u8 list"
  len :: nat

text \<open>\<^verbatim>\<open>PacketTransmission\<close>: what \<^verbatim>\<open>RadioManager::produce\<close> fills in. A null
  \<^verbatim>\<open>dest\<close> is \<open>None\<close>.\<close>

record PacketTransmission =
  dest :: "RadioAddress option"
  packet :: PacketBuffer

text \<open>\<^verbatim>\<open>Cube::Radio::Packet\<close>: a length and the payload array.\<close>

record Packet =
  plen :: nat
  payload :: "u8 list"

text \<open>The calls into other modules, as the trace records them.\<close>

datatype Event =
    BeginEventAt u64 bool
  | EndEvent u64
  | HandlePacket nat bool Packet
  | AckWithPacket PacketBuffer
  | AckEmpty
  | Timeout
  | Wake
  | ThreadJoin
  | ThreadStart
  | ChipErase
  | FlashWrite u32 "u8 list"
  | FlashInvalidate

datatype error = AssertionFailed

text \<open>
  The constants \<^verbatim>\<open>MAX_RETRIES\<close> and \<^verbatim>\<open>TICKS_PER_PACKET\<close> (system_mc.h), the size
  of a payload, \<^verbatim>\<open>RadioAddress::pack\<close> and the two operations of a cube's radio,
  \<^verbatim>\<open>getPackedRXAddr\<close> and \<^verbatim>\<open>handlePacket\<close>, are declared in other files; they are
  parameters of the model, and every theorem holds for all their values. \<open>'c\<close> is the
  state of one \<^verbatim>\<open>Cube::Hardware\<close>. \<^verbatim>\<open>handlePacket\<close> is given the cube, the
  packet and the reply buffer as it stands, and returns the acknowledgment, the reply
  buffer and the cube as it leaves them.
\<close>

record 'c Config =
  MAX_RETRIES :: nat
  TICKS_PER_PACKET :: u64
  PAYLOAD_MAX :: nat
  pack :: "RadioAddress \<Rightarrow> u64"
  getPackedRXAddr :: "'c \<Rightarrow> u64"
  handlePacket :: "'c \<Rightarrow> Packet \<Rightarrow> Packet \<Rightarrow> bool \<times> Packet \<times> 'c"

text \<open>
  The master: the tick counter, the flag of the thread, the cubes
  \<^verbatim>\<open>sys->cubes[0 .. opt_numCubes)\<close>, and the trace. The tick counter is an
  unsigned 64-bit integer (\<^verbatim>\<open>SysTime::ticks\<close> multiplies it "in 64-bit math"), so
  \<open>+\<close> on it wraps around at \<open>2 ^ 64\<close>. The cubes are simulated in a thread of
  their own; the model follows the master thread, in which a cube changes only where
  \<^verbatim>\<open>handlePacket\<close> is called on it.
\<close>

record 'c SystemMC =
  ticks :: u64
  mThreadRunning :: bool
  cubes :: "'c list"
  trace :: "Event list"

subsection \<open>The radio transaction\<close>

definition emit :: "Event \<Rightarrow> 'c SystemMC \<Rightarrow> 'c SystemMC" where
  "emit e s = s\<lparr>trace := trace s @ [e]\<rparr>"

definition beginPacket :: "'c Config \<Rightarrow> 'c SystemMC \<Rightarrow> 'c SystemMC" where
  "beginPacket cfg s =
     (let s1 = s\<lparr>ticks := ticks s + TICKS_PER_PACKET cfg\<rparr>
      in emit (BeginEventAt (ticks s1) (mThreadRunning s1)) s1)"

definition endPacket :: "'c Config \<Rightarrow> 'c SystemMC \<Rightarrow> 'c SystemMC" where
  "endPacket cfg s = emit (EndEvent (ticks s + TICKS_PER_PACKET cfg)) s"

text \<open>The scan of \<^verbatim>\<open>getCubeForAddress\<close>; a cube is returned as its index.\<close>

function scanCubes :: "'c Config \<Rightarrow> 'c list \<Rightarrow> u64 \<Rightarrow> nat \<Rightarrow> nat option" where
  "scanCubes cfg cs packed i =
     (if i < length cs then
        (if getPackedRXAddr cfg (cs ! i) = packed then Some i
         else scanCubes cfg cs packed (Suc i))
      else None)"
  by pat_completeness auto
termination
  by (relation "measure (\<lambda>(cfg, cs, packed, i). length cs - i)") auto

declare scanCubes.simps [simp del]

definition getCubeForAddress :: "'c Config \<Rightarrow> 'c SystemMC \<Rightarrow> RadioAddress \<Rightarrow> nat option" where
  "getCubeForAddress cfg s addr = scanCubes cfg (cubes s) (pack cfg addr) 0"

text \<open>
  One pass through the body of the retry loop, up to \<^verbatim>\<open>endPacket()\<close>: the value of
  \<^verbatim>\<open>buf.ack\<close>, the reply buffer and the state.
\<close>

definition attempt ::
  "'c Config \<Rightarrow> RadioAddress \<Rightarrow> Packet \<Rightarrow> Packet \<Rightarrow> 'c SystemMC \<Rightarrow> bool \<times> Packet \<times> 'c SystemMC" where
  "attempt cfg d pkt reply s =
     (let s1 = beginPacket cfg s in
      case getCubeForAddress cfg s1 d of
        None \<Rightarrow> (False, reply, endPacket cfg s1)
      | Some i \<Rightarrow>
          (case handlePacket cfg (cubes s1 ! i) pkt reply of
             (ack, reply', c') \<Rightarrow>
               (ack, reply',
                endPacket cfg (emit (HandlePacket i ack reply') (s1\<lparr>cubes := (cubes s1)[i := c']\<rparr>)))))"

text \<open>"Send the response": the branch taken when \<^verbatim>\<open>buf.ack\<close> is set.\<close>

definition respond :: "Packet \<Rightarrow> 'c SystemMC \<Rightarrow> 'c SystemMC" where
  "respond reply s =
     (if plen reply \<noteq> 0 then emit (AckWithPacket \<lparr>bytes = payload reply, len = plen reply\<rparr>) s
      else emit AckEmpty s)"

function retryLoop ::
  "'c Config \<Rightarrow> RadioAddress \<Rightarrow> Packet \<Rightarrow> Packet \<Rightarrow> nat \<Rightarrow> 'c SystemMC \<Rightarrow> 'c SystemMC" where
  "retryLoop cfg d pkt reply retry s =
     (if retry < MAX_RETRIES cfg then
        (case attempt cfg d pkt reply s of
           (ack, reply', s') \<Rightarrow>
             if ack then respond reply' s'
             else retryLoop cfg d pkt reply' (Suc retry) s')
      else emit Timeout s)"
  by pat_completeness auto
termination
  by (relation "measure (\<lambda>(cfg, d, pkt, reply, retry, s). MAX_RETRIES cfg - retry)") auto

declare retryLoop.simps [simp del]

text \<open>
  \<^verbatim>\<open>doRadioPacket\<close>. The argument \<open>ptx\<close> is what \<^verbatim>\<open>RadioManager::produce\<close> wrote
  into the zeroed buffer; \<^verbatim>\<open>ASSERT\<close> aborts when its condition is false.
\<close>

definition doRadioPacket ::
  "'c Config \<Rightarrow> PacketTransmission \<Rightarrow> 'c SystemMC \<Rightarrow> error + 'c SystemMC" where
  "doRadioPacket cfg ptx s =
     (case dest ptx of
        None \<Rightarrow> Inl AssertionFailed
      | Some d \<Rightarrow>
          Inr (retryLoop cfg d
                 \<lparr>plen = len (packet ptx), payload = bytes (packet ptx)\<rparr>
                 \<lparr>plen = 0, payload = replicate (PAYLOAD_MAX cfg) 0\<rparr>
                 0 s))"

text \<open>
  The loop of the master thread calls \<^verbatim>\<open>Radio::halt\<close>, and so
  \<^verbatim>\<open>doRadioPacket\<close>, again and again: a sequence of transactions, one per packet
  produced, which ends where an assertion aborts.
\<close>

fun transactions ::
  "'c Config \<Rightarrow> PacketTransmission list \<Rightarrow> 'c SystemMC \<Rightarrow> error + 'c SystemMC" where
  "transactions cfg [] s = Inr s"
| "transactions cfg (ptx # ptxs) s =
     (case doRadioPacket cfg ptx s of
        Inl e \<Rightarrow> Inl e
      | Inr s' \<Rightarrow> transactions cfg ptxs s')"

subsection \<open>Reading the trace\<close>

fun isReport :: "Event \<Rightarrow> bool" where
  "isReport (AckWithPacket b) = True"
| "isReport AckEmpty = True"
| "isReport Timeout = True"
| "isReport e = False"

fun isBegin :: "Event \<Rightarrow> bool" where
  "isBegin (BeginEventAt t r) = True"
| "isBegin e = False"

fun isAcked :: "Event \<Rightarrow> bool" where
  "isAcked (HandlePacket i ack reply) = ack"
| "isAcked e = False"

text \<open>The delivery attempts in a trace: one \<^verbatim>\<open>beginPacket\<close> each.\<close>

definition attempts :: "Event list \<Rightarrow> nat" where
  "attempts es = length (filter isBegin es)"

text \<open>The tick values the cube synchronisation was given by \<^verbatim>\<open>beginEventAt\<close>.\<close>

fun beginTicks :: "Event list \<Rightarrow> u64 list" where
  "beginTicks [] = []"
| "beginTicks (BeginEventAt t r # es) = t # beginTicks es"
| "beginTicks (e # es) = beginTicks es"

text \<open>The bounds given to \<^verbatim>\<open>endEvent\<close>.\<close>

fun endTicks :: "Event list \<Rightarrow> u64 list" where
  "endTicks [] = []"
| "endTicks (EndEvent t # es) = t # endTicks es"
| "endTicks (e # es) = endTicks es"

text \<open>The bounds of the windows, opened (\<^verbatim>\<open>beginEventAt\<close>) and re-armed
  (\<^verbatim>\<open>endEvent\<close>), in the order of the calls.\<close>

fun windowBounds :: "Event list \<Rightarrow> u64 list" where
  "windowBounds [] = []"
| "windowBounds (BeginEventAt t r # es) = t # windowBounds es"
| "windowBounds (EndEvent t # es) = t # windowBounds es"
| "windowBounds (e # es) = windowBounds es"

text \<open>
  The report a transaction owes, read from what the cubes answered: the first
  acknowledged \<^verbatim>\<open>handlePacket\<close> decides between the two acknowledgments, by the
  length of its reply; with none, the report is the timeout.
\<close>

fun reportFor :: "Event list \<Rightarrow> Event" where
  "reportFor [] = Timeout"
| "reportFor (HandlePacket i ack reply # es) =
     (if ack then
        (if plen reply \<noteq> 0 then AckWithPacket \<lparr>bytes = payload reply, len = plen reply\<rparr>
         else AckEmpty)
      else reportFor es)"
| "reportFor (e # es) = reportFor es"

text \<open>The events of \<open>n\<close> unanswered attempts that start at tick \<open>t\<close>.\<close>

definition silentAttempts :: "u64 \<Rightarrow> u64 \<Rightarrow> bool \<Rightarrow> nat \<Rightarrow> Event list" where
  "silentAttempts t q running n =
     concat (map (\<lambda>k. [BeginEventAt (t + of_nat (Suc k) * q) running,
                         EndEvent (t + of_nat (Suc (Suc k)) * q)]) [0..<n])"

subsection \<open>The tick conversion\<close>

text \<open>
  Modelled from the spec: \<^verbatim>\<open>SystemMC::TICK_HZ\<close> (system_mc.h) and
  \<^verbatim>\<open>SysTime::hzTicks\<close> (systime.h) are declared in headers that are not among the
  sources. The comment in \<^verbatim>\<open>SysTime::ticks\<close> gives the rate, 16 MHz, and the unit
  of \<^verbatim>\<open>SysTime::Ticks\<close>, the nanosecond (62.5 ns a tick); \<open>hzTicks hz\<close> is the
  period of \<open>hz\<close> in that unit.
\<close>

definition TICK_HZ :: nat where
  "TICK_HZ = 16000000"

definition hzTicks :: "nat \<Rightarrow> u64" where
  "hzTicks hz = of_nat (1000000000 div hz)"

text \<open>\<^verbatim>\<open>SysTime::ticks\<close>, of the master \<^verbatim>\<open>SystemMC::instance\<close>: 64-bit
  multiplication, then a shift by four.\<close>

definition SysTime_ticks :: "'c SystemMC \<Rightarrow> u64" where
  "SysTime_ticks s = drop_bit 4 (ticks s * hzTicks (TICK_HZ div 16))"

subsection \<open>Installing an image\<close>

text \<open>
  An open stream of the C library. \<open>content\<close> holds the bytes the stream delivers
  next, and \<open>tail\<close> says what a read meets once they run out: the end of the file,
  a read error (every read of a directory fails at once, with no byte delivered), or
  bytes without end (a device such as \<^verbatim>\<open>/dev/zero\<close>). \<open>eof\<close> and \<open>err\<close> are the
  two indicators of the stream.
\<close>

datatype Tail = EndOfFile | ReadError | Endless u8

record FILE =
  content :: "u8 list"
  tail :: Tail
  eof :: bool
  err :: bool

definition feof :: "FILE \<Rightarrow> bool" where
  "feof f = eof f"

text \<open>
  \<^verbatim>\<open>fread(buf, 1, n, f)\<close>: the bytes delivered and the stream afterwards. A read
  that meets the end of the file sets the end-of-file indicator; a read that fails sets
  the error indicator and leaves the end-of-file indicator alone.
\<close>

definition fread :: "nat \<Rightarrow> FILE \<Rightarrow> u8 list \<times> FILE" where
  "fread n f =
     (if n \<le> length (content f) then
        (take n (content f), f\<lparr>content := drop n (content f)\<rparr>)
      else
        (case tail f of
           EndOfFile \<Rightarrow> (content f, f\<lparr>content := [], eof := True\<rparr>)
         | ReadError \<Rightarrow> (content f, f\<lparr>content := [], err := True\<rparr>)
         | Endless b \<Rightarrow>
             (content f @ replicate (n - length (content f)) b, f\<lparr>content := []\<rparr>)))"

text \<open>\<^verbatim>\<open>fopen(path, "rb")\<close> in a file system \<open>fs\<close>, which gives for a path that can
  be opened the bytes and the tail of its stream: \<open>None\<close> is the null pointer.\<close>

definition fopen :: "(string \<Rightarrow> (u8 list \<times> Tail) option) \<Rightarrow> string \<Rightarrow> FILE option" where
  "fopen fs path =
     map_option (\<lambda>(bs, t). \<lparr>content = bs, tail = t, eof = False, err = False\<rparr>) (fs path)"

definition start :: "'c SystemMC \<Rightarrow> 'c SystemMC" where
  "start s = emit ThreadStart (s\<lparr>mThreadRunning := True\<rparr>)"

definition stop :: "'c SystemMC \<Rightarrow> 'c SystemMC" where
  "stop s = emit ThreadJoin (emit Wake (s\<lparr>mThreadRunning := False\<rparr>))"

text \<open>
  \<^verbatim>\<open>FlashDevice::write\<close> is defined in another file. What \<^verbatim>\<open>installELF\<close> can see
  of it is whether the call returns (an assertion in it may end the process instead);
  that is a parameter of the model, which may depend on the calls made so far, on the
  address and on the bytes. A call that returns is recorded in the trace; one that does
  not is \<open>None\<close>.
\<close>

record FlashDevice =
  writeReturns :: "Event list \<Rightarrow> u32 \<Rightarrow> u8 list \<Rightarrow> bool"

definition FlashDevice_write ::
  "FlashDevice \<Rightarrow> u32 \<Rightarrow> u8 list \<Rightarrow> 'c SystemMC \<Rightarrow> 'c SystemMC option" where
  "FlashDevice_write dev addr buf s =
     (if writeReturns dev (trace s) addr buf then Some (emit (FlashWrite addr buf) s) else None)"

text \<open>
  The loop \<^verbatim>\<open>while (!feof(elfFile))\<close>; \<^verbatim>\<open>addr\<close> is an \<^verbatim>\<open>unsigned\<close>. The loop
  tests the end-of-file indicator only, so it need not end: \<open>None\<close> is a loop that
  never exits, or a call of \<^verbatim>\<open>FlashDevice::write\<close> that never returns.
\<close>

partial_function (option) writeLoop ::
  "FlashDevice \<Rightarrow> FILE \<Rightarrow> u32 \<Rightarrow> 'c SystemMC \<Rightarrow> (FILE \<times> u32 \<times> 'c SystemMC) option" where
  "writeLoop dev f addr s =
     (if \<not> feof f then
        (case fread 512 f of
           (buf, f') \<Rightarrow>
             let rxed = length buf in
             if rxed > 0 then
               Option.bind (FlashDevice_write dev addr buf s)
                 (\<lambda>s'. writeLoop dev f' (addr + of_nat rxed) s')
             else writeLoop dev f' addr s)
      else Some (f, addr, s))"

text \<open>
  \<^verbatim>\<open>installELF\<close>, a static member that works on \<^verbatim>\<open>SystemMC::instance\<close>. Where the
  call returns, the result is \<^verbatim>\<open>success\<close> with the state it leaves; \<open>None\<close> is a
  call that does not return. \<^verbatim>\<open>FlashDevice::chipErase\<close> and
  \<^verbatim>\<open>FlashBlock::invalidate\<close> are recorded in the trace; \<^verbatim>\<open>fclose\<close> and \<^verbatim>\<open>LOG\<close>
  change nothing of the state.
\<close>

definition installELF ::
  "FlashDevice \<Rightarrow> (string \<Rightarrow> (u8 list \<times> Tail) option) \<Rightarrow> string \<Rightarrow> 'c SystemMC
     \<Rightarrow> (bool \<times> 'c SystemMC) option" where
  "installELF dev fs path s =
     (let restartThread = mThreadRunning s;
          s1 = (if restartThread then stop s else s)
      in Option.bind
           (case fopen fs path of
              None \<Rightarrow> Some (False, s1)
            | Some elfFile \<Rightarrow>
                map_option (\<lambda>(f', addr, s'). (True, s'))
                  (writeLoop dev elfFile 0 (emit ChipErase s1)))
           (\<lambda>(success, s2).
              let s3 = emit FlashInvalidate s2;
                  s4 = (if restartThread then start s3 else s3)
              in Some (success, s4)))"

fun isFlashAccess :: "Event \<Rightarrow> bool" where
  "isFlashAccess ChipErase = True"
| "isFlashAccess (FlashWrite a bs) = True"
| "isFlashAccess e = False"

fun isThreadEvent :: "Event \<Rightarrow> bool" where
  "isThreadEvent Wake = True"
| "isThreadEvent ThreadJoin = True"
| "isThreadEvent ThreadStart = True"
| "isThreadEvent e = False"

text \<open>The writes that stream an image \<open>img\<close> in chunks of 512 bytes from address
  \<open>addr\<close> on; the address is an \<^verbatim>\<open>unsigned\<close>, so it counts modulo \<open>2 ^ 32\<close>.\<close>

definition chunkWrites :: "u32 \<Rightarrow> u8 list \<Rightarrow> Event list" where
  "chunkWrites addr img =
     map (\<lambda>k. FlashWrite (addr + of_nat (512 * k)) (take 512 (drop (512 * k) img)))
       [0..<(length img + 511) div 512]"

subsection \<open>Auxiliary descriptions of traces\<close>

text \<open>What the cube answered in one attempt, if one was addressed.\<close>

definition attemptEvents :: "'c Config \<Rightarrow> RadioAddress \<Rightarrow> Packet \<Rightarrow> Packet \<Rightarrow> 'c SystemMC \<Rightarrow> Event list" where
  "attemptEvents cfg d pkt reply s =
     (case getCubeForAddress cfg (beginPacket cfg s) d of
        None \<Rightarrow> []
      | Some i \<Rightarrow>
          (case handlePacket cfg (cubes s ! i) pkt reply of
             (ack, reply', c') \<Rightarrow> [HandlePacket i ack reply']))"

text \<open>
  The events \<open>new\<close> of a retry loop that may run \<open>m\<close> more times from tick \<open>t\<close>
  with quantum \<open>q\<close>: no report among them, at most \<open>m\<close> attempts, all \<open>m\<close> of them
  when the report due is the timeout, and the ticks given to the cube synchronisation.
\<close>

definition txFacts :: "u64 \<Rightarrow> u64 \<Rightarrow> nat \<Rightarrow> Event list \<Rightarrow> bool" where
  "txFacts t q m new \<longleftrightarrow>
     \<not> list_ex isReport new \<and>
     attempts new \<le> m \<and>
     (reportFor new = Timeout \<longrightarrow> attempts new = m) \<and>
     beginTicks new = map (\<lambda>k. t + of_nat (Suc k) * q) [0..<attempts new] \<and>
     endTicks new = map (\<lambda>k. t + of_nat (Suc (Suc k)) * q) [0..<attempts new] \<and>
     windowBounds new =
       concat (map (\<lambda>k. [t + of_nat (Suc k) * q, t + of_nat (Suc (Suc k)) * q]) [0..<attempts new])"

text \<open>The ticks given to the cube synchronisation by a run of attempts that starts at
  tick \<open>t\<close>: the \<open>k\<close>-th window (from 0) opens at \<open>t + (k + 1) q\<close> and is re-armed
  to \<open>t + (k + 2) q\<close>.\<close>

definition tickFacts :: "u64 \<Rightarrow> u64 \<Rightarrow> Event list \<Rightarrow> bool" where
  "tickFacts t q es \<longleftrightarrow>
     beginTicks es = map (\<lambda>k. t + of_nat (Suc k) * q) [0..<attempts es] \<and>
     endTicks es = map (\<lambda>k. t + of_nat (Suc (Suc k)) * q) [0..<attempts es] \<and>
     windowBounds es = map (\<lambda>j. t + of_nat ((j + 3) div 2) * q) [0..<2 * attempts es]"

subsection \<open>Example inputs\<close>

text \<open>
  A configuration with three retries and a quantum of 7200 ticks. A cube is
  represented by its packed receive address, and every cube acknowledges with the
  one-byte reply \<open>0x42\<close>. The packed form of an address is its channel followed by
  its id bytes.
\<close>

definition cfgEx :: "u64 Config" where
  "cfgEx = \<lparr>MAX_RETRIES = 3, TICKS_PER_PACKET = 7200, PAYLOAD_MAX = 32,
     pack = (\<lambda>a. foldl (\<lambda>acc b. acc * 256 + ucast b) (ucast (channel a)) (addr_id a)),
     getPackedRXAddr = (\<lambda>c. c),
     handlePacket = (\<lambda>c pkt reply. (True, \<lparr>plen = 1, payload = [0x42]\<rparr>, c))\<rparr>"

definition ptxEx :: PacketTransmission where
  "ptxEx = \<lparr>dest = Some \<lparr>channel = 0, addr_id = [0xAB, 0xCD]\<rparr>,
     packet = \<lparr>bytes = [1, 2, 3], len = 3\<rparr>\<rparr>"

definition ptxNull :: PacketTransmission where
  "ptxNull = \<lparr>dest = None, packet = \<lparr>bytes = [], len = 0\<rparr>\<rparr>"

text \<open>One cube at the packed address \<open>0xABCD\<close>; no cube at all; and no cube, with
  the tick counter at its last value.\<close>

definition sOne :: "u64 SystemMC" where
  "sOne = \<lparr>ticks = 0, mThreadRunning = True, cubes = [0xABCD], trace = []\<rparr>"

definition sNone :: "u64 SystemMC" where
  "sNone = \<lparr>ticks = 0, mThreadRunning = True, cubes = [], trace = []\<rparr>"

definition sWrap :: "u64 SystemMC" where
  "sWrap = \<lparr>ticks = 0xFFFFFFFFFFFFFFFF, mThreadRunning = True, cubes = [], trace = []\<rparr>"

text \<open>The master after one simulated hour at 16 MHz.\<close>

definition sHour :: "u64 SystemMC" where
  "sHour = \<lparr>ticks = 57600000000, mThreadRunning = True, cubes = [], trace = []\<rparr>"

text \<open>The master with its thread not running.\<close>

definition sIdle :: "u64 SystemMC" where
  "sIdle = \<lparr>ticks = 0, mThreadRunning = False, cubes = [], trace = []\<rparr>"

text \<open>
  A file system with a four-byte image, an empty file, an image of 1025 bytes, a
  directory (it opens, and every read fails) and an image whose reads fail after three
  bytes.
\<close>

definition fsEx :: "string \<Rightarrow> (u8 list \<times> Tail) option" where
  "fsEx path =
     (if path = ''game.elf'' then Some ([0x7F, 0x45, 0x4C, 0x46], EndOfFile)
      else if path = ''empty.elf'' then Some ([], EndOfFile)
      else if path = ''big.elf'' then Some (replicate 1025 0xFF, EndOfFile)
      else if path = ''dir'' then Some ([], ReadError)
      else if path = ''bad.elf'' then Some ([0x7F, 0x45, 0x4C], ReadError)
      else None)"

text \<open>Two flash devices: one whose writes always return, and one that ends the
  process on a write that reaches past \<open>cap\<close> bytes.\<close>

definition devAny :: FlashDevice where
  "devAny = \<lparr>writeReturns = (\<lambda>tr addr buf. True)\<rparr>"

definition devBounded :: "nat \<Rightarrow> FlashDevice" where
  "devBounded cap = \<lparr>writeReturns = (\<lambda>tr addr buf. unat addr + length buf \<le> cap)\<rparr>"

section \<open>Properties\<close>

subsection \<open>One attempt and the retry loop\<close>

lemma trace_emit [simp]: "trace (emit e s) = trace s @ [e]"
  and ticks_emit [simp]: "ticks (emit e s) = ticks s"
  and running_emit [simp]: "mThreadRunning (emit e s) = mThreadRunning s"
  and cubes_emit [simp]: "cubes (emit e s) = cubes s"
  by (simp_all add: emit_def)

lemma attempts_append [simp]: "attempts (xs @ ys) = attempts xs + attempts ys"
  by (simp add: attempts_def)

lemma attempts_simps [simp]:
  "attempts [] = 0"
  "attempts (BeginEventAt t r # es) = Suc (attempts es)"
  "attempts (EndEvent t # es) = attempts es"
  "attempts (HandlePacket i a rp # es) = attempts es"
  by (simp_all add: attempts_def)

lemma beginTicks_append [simp]: "beginTicks (xs @ ys) = beginTicks xs @ beginTicks ys"
  by (induction xs rule: beginTicks.induct) simp_all

lemma endTicks_append [simp]: "endTicks (xs @ ys) = endTicks xs @ endTicks ys"
  by (induction xs rule: endTicks.induct) simp_all

lemma windowBounds_append [simp]: "windowBounds (xs @ ys) = windowBounds xs @ windowBounds ys"
  by (induction xs rule: windowBounds.induct) simp_all

lemma reportFor_append: "\<not> list_ex isAcked xs \<Longrightarrow> reportFor (xs @ ys) = reportFor ys"
  by (induction xs rule: reportFor.induct) simp_all

lemma beginPacket_fields [simp]:
  "trace (beginPacket cfg s) = trace s @ [BeginEventAt (ticks s + TICKS_PER_PACKET cfg) (mThreadRunning s)]"
  "ticks (beginPacket cfg s) = ticks s + TICKS_PER_PACKET cfg"
  "mThreadRunning (beginPacket cfg s) = mThreadRunning s"
  "cubes (beginPacket cfg s) = cubes s"
  by (simp_all add: beginPacket_def Let_def)

lemma endPacket_fields [simp]:
  "trace (endPacket cfg s) = trace s @ [EndEvent (ticks s + TICKS_PER_PACKET cfg)]"
  "ticks (endPacket cfg s) = ticks s"
  "mThreadRunning (endPacket cfg s) = mThreadRunning s"
  "cubes (endPacket cfg s) = cubes s"
  by (simp_all add: endPacket_def)

lemma getCube_begin [simp]:
  "getCubeForAddress cfg (beginPacket cfg s) d = getCubeForAddress cfg s d"
  by (simp add: getCubeForAddress_def)

lemma attempt_trace:
  assumes "attempt cfg d pkt reply s = (ack, reply', s')"
  shows "trace s' = trace s @ BeginEventAt (ticks s + TICKS_PER_PACKET cfg) (mThreadRunning s)
            # attemptEvents cfg d pkt reply s
            @ [EndEvent (ticks s + TICKS_PER_PACKET cfg + TICKS_PER_PACKET cfg)]"
    and "ticks s' = ticks s + TICKS_PER_PACKET cfg"
    and "mThreadRunning s' = mThreadRunning s"
    and "attemptEvents cfg d pkt reply s = [] \<and> \<not> ack \<and> reply' = reply \<and> cubes s' = cubes s \<and> getCubeForAddress cfg s d = None
         \<or> (\<exists>i. attemptEvents cfg d pkt reply s = [HandlePacket i ack reply'])"
  using assms
  by (auto simp: attempt_def attemptEvents_def Let_def
           split: option.splits prod.splits)


lemma txFacts_Nil: "txFacts t q 0 []"
  by (simp add: txFacts_def)

lemma txFacts_last:
  assumes "mid = [] \<or> (\<exists>i a r. mid = [HandlePacket i a r])" "0 < m"
    and "list_ex isAcked mid \<or> m = 1"
  shows "txFacts t q m (BeginEventAt (t + q) run # mid @ [EndEvent (t + q + q)])"
  using assms by (auto simp: txFacts_def algebra_simps split: if_splits)

lemma txFacts_step:
  assumes "mid = [] \<or> (\<exists>i r. mid = [HandlePacket i False r])"
    and "txFacts (t + q) q m new"
  shows "txFacts t q (Suc m) (BeginEventAt (t + q) run # mid @ [EndEvent (t + q + q)] @ new)"
  using assms
  by (auto simp: txFacts_def algebra_simps map_upt_Suc simp del: upt_Suc)


lemma respond_trace [simp]:
  "trace (respond r s) = trace s @ [reportFor [HandlePacket i True r]]"
  "ticks (respond r s) = ticks s"
  "mThreadRunning (respond r s) = mThreadRunning s"
  by (simp_all add: respond_def)

lemma retryLoop_facts:
  "\<exists>new. trace (retryLoop cfg d pkt reply retry s) = trace s @ new @ [reportFor new]
     \<and> txFacts (ticks s) (TICKS_PER_PACKET cfg) (MAX_RETRIES cfg - retry) new
     \<and> ticks (retryLoop cfg d pkt reply retry s)
         = ticks s + of_nat (attempts new) * TICKS_PER_PACKET cfg
     \<and> mThreadRunning (retryLoop cfg d pkt reply retry s) = mThreadRunning s"
proof (induction cfg d pkt reply retry s rule: retryLoop.induct)
  case (1 cfg d pkt reply retry s)
  let ?q = "TICKS_PER_PACKET cfg"
  show ?case
  proof (cases "retry < MAX_RETRIES cfg")
    case False
    then have "retryLoop cfg d pkt reply retry s = emit Timeout s"
      by (simp add: retryLoop.simps)
    with False show ?thesis
      by (intro exI [of _ "[]"]) (simp add: txFacts_Nil)
  next
    case True
    obtain ack reply' s' where att: "attempt cfg d pkt reply s = (ack, reply', s')"
      by (cases "attempt cfg d pkt reply s") auto
    note tr = attempt_trace [OF att]
    let ?mid = "attemptEvents cfg d pkt reply s"
    let ?ev = "BeginEventAt (ticks s + ?q) (mThreadRunning s) # ?mid @ [EndEvent (ticks s + ?q + ?q)]"
    show ?thesis
    proof (cases ack)
      case True
      with tr(4) obtain i where mid: "?mid = [HandlePacket i True reply']"
        by auto
      from True att \<open>retry < MAX_RETRIES cfg\<close>
      have loop: "retryLoop cfg d pkt reply retry s = respond reply' s'"
        by (simp add: retryLoop.simps)
      have rep: "reportFor ?ev = reportFor [HandlePacket i True reply']"
        by (simp add: mid)
      have "txFacts (ticks s) ?q (MAX_RETRIES cfg - retry) ?ev"
        by (rule txFacts_last) (use mid \<open>retry < MAX_RETRIES cfg\<close> in auto)
      moreover have "trace (respond reply' s') = trace s @ ?ev @ [reportFor ?ev]"
        unfolding rep by (simp add: tr(1) respond_trace(1) [where i = i])
      moreover have "ticks (respond reply' s') = ticks s + of_nat (attempts ?ev) * ?q"
        by (simp add: tr(2) mid)
      moreover have "mThreadRunning (respond reply' s') = mThreadRunning s"
        by (simp add: tr(3))
      ultimately show ?thesis
        unfolding loop by blast
    next
      case False
      from False att \<open>retry < MAX_RETRIES cfg\<close>
      have loop: "retryLoop cfg d pkt reply retry s = retryLoop cfg d pkt reply' (Suc retry) s'"
        by (simp add: retryLoop.simps)
      from "1.IH" [OF \<open>retry < MAX_RETRIES cfg\<close> att [symmetric] refl False]
      obtain new where
        n1: "trace (retryLoop cfg d pkt reply' (Suc retry) s') = trace s' @ new @ [reportFor new]"
        and n2: "txFacts (ticks s') ?q (MAX_RETRIES cfg - Suc retry) new"
        and n3: "ticks (retryLoop cfg d pkt reply' (Suc retry) s')
                   = ticks s' + of_nat (attempts new) * ?q"
        and n4: "mThreadRunning (retryLoop cfg d pkt reply' (Suc retry) s') = mThreadRunning s'"
        by blast
      from tr(4) False have mid: "?mid = [] \<or> (\<exists>i r. ?mid = [HandlePacket i False r])"
        by auto
      then have noack: "\<not> list_ex isAcked ?ev"
        by auto
      have m: "MAX_RETRIES cfg - retry = Suc (MAX_RETRIES cfg - Suc retry)"
        using \<open>retry < MAX_RETRIES cfg\<close> by simp
      have "txFacts (ticks s) ?q (MAX_RETRIES cfg - retry) (?ev @ new)"
        unfolding m using txFacts_step [OF mid, of "ticks s" ?q _ new "mThreadRunning s"] n2
        by (simp add: tr(2))
      moreover have "trace (retryLoop cfg d pkt reply' (Suc retry) s')
          = trace s @ (?ev @ new) @ [reportFor (?ev @ new)]"
        unfolding reportFor_append [OF noack] n1 tr(1) by simp
      moreover have "ticks (retryLoop cfg d pkt reply' (Suc retry) s')
          = ticks s + of_nat (attempts (?ev @ new)) * ?q"
        unfolding n3 tr(2) using mid by (auto simp: algebra_simps)
      moreover have "mThreadRunning (retryLoop cfg d pkt reply' (Suc retry) s') = mThreadRunning s"
        by (simp add: n4 tr(3))
      ultimately show ?thesis
        unfolding loop by blast
    qed
  qed
qed

subsection \<open>Tick arithmetic\<close>

lemma hzTicks_const: "hzTicks (TICK_HZ div 16) = 1000"
  by (simp add: hzTicks_def TICK_HZ_def)

lemma unat_advance:
  fixes t q :: u64
  assumes "unat t + k * unat q < 2 ^ 64"
  shows "unat (t + of_nat k * q) = unat t + k * unat q"
proof -
  have "t + of_nat k * q = of_nat (unat t + k * unat q)"
    by simp
  moreover have "unat (of_nat (unat t + k * unat q) :: u64) = unat t + k * unat q"
    using assms by (simp only: unat_of_nat len_bit0 len_num1 mod_less, simp)
  ultimately show ?thesis by simp
qed

lemma advance_mono:
  fixes t q :: u64
  assumes "unat t + n * unat q < 2 ^ 64" "j \<le> k" "k \<le> n"
  shows "t + of_nat j * q \<le> t + of_nat k * q"
proof -
  have "j * unat q \<le> k * unat q" "k * unat q \<le> n * unat q"
    using assms by (simp_all add: mult_le_mono1)
  then have "unat t + j * unat q < 2 ^ 64" "unat t + k * unat q < 2 ^ 64"
    using assms(1) by linarith+
  then show ?thesis
    using \<open>j * unat q \<le> k * unat q\<close> by (simp add: word_le_nat_alt unat_advance)
qed

lemma advance_strict:
  fixes t q :: u64
  assumes "unat t + n * unat q < 2 ^ 64" "j < k" "k \<le> n" "q \<noteq> 0"
  shows "t + of_nat j * q < t + of_nat k * q"
proof -
  have "0 < unat q" using assms(4) by (simp add: unat_gt_0)
  then have "j * unat q < k * unat q" using assms(2) by simp
  moreover have "k * unat q \<le> n * unat q"
    using assms by (simp add: mult_le_mono1)
  ultimately have "unat t + j * unat q < 2 ^ 64" "unat t + k * unat q < 2 ^ 64"
    using assms(1) by linarith+
  then show ?thesis
    using \<open>j * unat q < k * unat q\<close> by (simp add: word_less_nat_alt unat_advance)
qed

lemma SysTime_ticks_exact:
  assumes "unat (ticks s) * 1000 < 2 ^ 64"
  shows "unat (SysTime_ticks s) = unat (ticks s) * 1000 div 16"
proof -
  have "unat (ticks s * 1000) = unat (ticks s) * 1000"
    using assms by (simp add: unat_word_ariths)
  moreover have "unat (drop_bit 4 (ticks s * 1000)) = unat (ticks s * 1000) div 16"
    by (simp add: drop_bit_eq_div unat_div)
  ultimately show ?thesis
    by (simp only: SysTime_ticks_def hzTicks_const)
qed


lemma sorted_advance:
  fixes t q :: u64
  assumes "unat t + g n * unat q < 2 ^ 64" and g: "\<And>i j. i \<le> j \<Longrightarrow> g i \<le> g j"
  shows "sorted (map (\<lambda>k. t + of_nat (g k) * q) [0..<Suc n])"
proof -
  have "sorted_wrt (\<lambda>i j. t + of_nat (g i) * q \<le> t + of_nat (g j) * q) [0..<Suc n]"
  proof (rule sorted_wrt_mono_rel [OF _ sorted_wrt_upt])
    fix i j assume "i \<in> set [0..<Suc n]" "j \<in> set [0..<Suc n]" "i < j"
    then have "g i \<le> g j" "g j \<le> g n" by (auto intro: g)
    then show "t + of_nat (g i) * q \<le> t + of_nat (g j) * q"
      using assms(1) by (rule advance_mono [rotated])
  qed
  then show ?thesis by (simp only: sorted_map)
qed

subsection \<open>The write loop and the installer\<close>

lemma FlashDevice_write_Some:
  "FlashDevice_write dev addr buf s = Some s' \<Longrightarrow> s' = emit (FlashWrite addr buf) s"
  by (simp add: FlashDevice_write_def split: if_splits)

lemma writeLoop_eof: "eof f \<Longrightarrow> writeLoop dev f addr s = Some (f, addr, s)"
  by (subst writeLoop.simps) (simp add: feof_def)

lemma fread_tail: "tail (snd (fread n f)) = tail f"
  by (simp add: fread_def split: Tail.splits)

lemma fread_eof: "eof (snd (fread n f)) \<Longrightarrow> eof f \<or> tail f = EndOfFile"
  by (simp add: fread_def split: Tail.splits if_splits)

text \<open>The loop exits only on a stream that meets the end of the file.\<close>

lemma writeLoop_Some_tail:
  assumes "writeLoop dev f addr s = Some r"
  shows "eof f \<or> tail f = EndOfFile"
  using assms
proof (induction dev f addr s r rule: writeLoop.raw_induct [rotated 1, consumes 1])
  case (1 loop dev f addr s r)
  show ?case
  proof (cases "eof f")
    case True
    then show ?thesis by simp
  next
    case False
    obtain buf f' where fr: "fread 512 f = (buf, f')"
      by (cases "fread 512 f") auto
    have "eof f' \<or> tail f' = EndOfFile"
    proof (cases "0 < length buf")
      case True
      with "1.hyps" False fr obtain s' where "loop dev f' (addr + of_nat (length buf)) s' = Some r"
        by (auto simp: feof_def Let_def split: Option.bind_splits)
      then show ?thesis by (rule "1.IH")
    next
      case False
      with "1.hyps" \<open>\<not> eof f\<close> fr have "loop dev f' addr s = Some r"
        by (simp add: feof_def Let_def)
      then show ?thesis by (rule "1.IH")
    qed
    with fread_tail [of 512 f] fread_eof [of 512 f] fr show ?thesis
      by auto
  qed
qed

text \<open>What a loop that exits has done: writes, and nothing else.\<close>

lemma writeLoop_Some_facts:
  assumes "writeLoop dev f addr s = Some r"
  shows "\<exists>ws. trace (snd (snd r)) = trace s @ ws \<and> (\<forall>e \<in> set ws. \<exists>a bs. e = FlashWrite a bs)
       \<and> mThreadRunning (snd (snd r)) = mThreadRunning s
       \<and> ticks (snd (snd r)) = ticks s \<and> cubes (snd (snd r)) = cubes s"
  using assms
proof (induction dev f addr s r rule: writeLoop.raw_induct [rotated 1, consumes 1])
  case (1 loop dev f addr s r)
  show ?case
  proof (cases "eof f")
    case True
    with "1.hyps" show ?thesis by (auto simp: feof_def)
  next
    case False
    obtain buf f' where fr: "fread 512 f = (buf, f')"
      by (cases "fread 512 f") auto
    show ?thesis
    proof (cases "0 < length buf")
      case True
      with "1.hyps" False fr obtain s' where w: "FlashDevice_write dev addr buf s = Some s'"
        and l: "loop dev f' (addr + of_nat (length buf)) s' = Some r"
        by (auto simp: feof_def Let_def split: Option.bind_splits)
      from "1.IH" [OF l] obtain ws where
        "trace (snd (snd r)) = trace s' @ ws" "\<forall>e \<in> set ws. \<exists>a bs. e = FlashWrite a bs"
        "mThreadRunning (snd (snd r)) = mThreadRunning s'"
        "ticks (snd (snd r)) = ticks s'" "cubes (snd (snd r)) = cubes s'"
        by blast
      with FlashDevice_write_Some [OF w] show ?thesis
        by (intro exI [of _ "FlashWrite addr buf # ws"]) simp
    next
      case False
      with "1.hyps" \<open>\<not> eof f\<close> fr have "loop dev f' addr s = Some r"
        by (simp add: feof_def Let_def)
      then show ?thesis by (rule "1.IH")
    qed
  qed
qed


text \<open>One pass of the loop.\<close>

lemma writeLoop_write:
  assumes "\<not> eof f" "fread 512 f = (buf, f')" "buf \<noteq> []"
  shows "writeLoop dev f addr s
       = Option.bind (FlashDevice_write dev addr buf s)
           (\<lambda>s'. writeLoop dev f' (addr + of_nat (length buf)) s')"
  using assms by (subst writeLoop.simps) (simp add: feof_def Let_def)

lemma writeLoop_skip:
  assumes "\<not> eof f" "fread 512 f = ([], f')"
  shows "writeLoop dev f addr s = writeLoop dev f' addr s"
  using assms by (subst writeLoop.simps) (simp add: feof_def Let_def)

lemma fread_long:
  "512 \<le> length (content f) \<Longrightarrow>
     fread 512 f = (take 512 (content f), f\<lparr>content := drop 512 (content f)\<rparr>)"
  by (simp add: fread_def)

lemma fread_last:
  "length (content f) < 512 \<Longrightarrow> tail f = EndOfFile \<Longrightarrow>
     fread 512 f = (content f, f\<lparr>content := [], eof := True\<rparr>)"
  by (simp add: fread_def)

lemma chunkWrites_Nil [simp]: "chunkWrites addr [] = []"
  by (simp add: chunkWrites_def)

lemma chunkWrites_short:
  assumes "0 < length img" "length img < 512"
  shows "chunkWrites addr img = [FlashWrite addr img]"
proof -
  have "(length img + 511) div 512 = 1"
    by (rule div_nat_eqI) (use assms in \<open>simp_all add: Suc_le_eq\<close>)
  then show ?thesis using assms by (simp add: chunkWrites_def)
qed

lemma chunkWrites_long:
  assumes "512 \<le> length img"
  shows "chunkWrites addr img = FlashWrite addr (take 512 img) # chunkWrites (addr + 512) (drop 512 img)"
proof -
  from assms have "length img + 511 = (length img - 512 + 511) + 512"
    by simp
  then have "(length img + 511) div 512 = ((length img - 512 + 511) + 512) div 512"
    by simp
  then have n: "(length img + 511) div 512 = Suc ((length img - 512 + 511) div 512)"
    by (simp only: div_add_self2)
  show ?thesis
    unfolding chunkWrites_def n map_upt_Suc
    by (simp add: algebra_simps)
qed

text \<open>A stream that ends, on a device whose writes return: the loop exits, having
  written the image chunk by chunk.\<close>

lemma writeLoop_regular:
  assumes dev: "\<And>tr a bs. writeReturns dev tr a bs"
  shows "\<not> eof f \<Longrightarrow> tail f = EndOfFile \<Longrightarrow>
     \<exists>f' addr'. writeLoop dev f addr s
        = Some (f', addr', s\<lparr>trace := trace s @ chunkWrites addr (content f)\<rparr>)"
proof (induction "length (content f)" arbitrary: f addr s rule: less_induct)
  case less
  let ?c = "content f"
  have w: "FlashDevice_write dev a bs s = Some (emit (FlashWrite a bs) s)" for a bs and s :: "'a SystemMC"
    by (simp add: FlashDevice_write_def dev)
  consider (empty) "?c = []" | (short) "0 < length ?c" "length ?c < 512" | (long) "512 \<le> length ?c"
    by (cases "length ?c < 512") auto
  then show ?case
  proof cases
    case empty
    then have "fread 512 f = ([], f\<lparr>content := [], eof := True\<rparr>)"
      using less.prems by (simp add: fread_last)
    then have "writeLoop dev f addr s = writeLoop dev (f\<lparr>content := [], eof := True\<rparr>) addr s"
      using less.prems(1) by (rule writeLoop_skip [rotated])
    then show ?thesis using empty by (simp add: writeLoop_eof)
  next
    case short
    then have fr: "fread 512 f = (?c, f\<lparr>content := [], eof := True\<rparr>)"
      using less.prems by (simp add: fread_last)
    from short have ne: "?c \<noteq> []" by auto
    show ?thesis
      unfolding writeLoop_write [OF less.prems(1) fr ne] w
      using short by (simp add: writeLoop_eof chunkWrites_short emit_def)
  next
    case long
    let ?f = "f\<lparr>content := drop 512 ?c\<rparr>"
    let ?s = "emit (FlashWrite addr (take 512 ?c)) s"
    from long have fr: "fread 512 f = (take 512 ?c, ?f)"
      by (rule fread_long)
    from long have ne: "take 512 ?c \<noteq> []" by auto
    have l: "length (take 512 ?c) = 512" using long by simp
    have step: "writeLoop dev f addr s = writeLoop dev ?f (addr + 512) ?s"
      unfolding writeLoop_write [OF less.prems(1) fr ne] w l by simp
    have "length (content ?f) < length ?c" "\<not> eof ?f" "tail ?f = EndOfFile"
      using long less.prems by simp_all
    from less.hyps [OF this, of "addr + 512" ?s] obtain f' addr' where
      "writeLoop dev ?f (addr + 512) ?s
         = Some (f', addr', ?s\<lparr>trace := trace ?s @ chunkWrites (addr + 512) (content ?f)\<rparr>)"
      by blast
    then show ?thesis
      unfolding step using long by (simp add: chunkWrites_long emit_def)
  qed
qed

lemma stop_fields [simp]:
  "trace (stop s) = trace s @ [Wake, ThreadJoin]"
  "mThreadRunning (stop s) = False"
  "ticks (stop s) = ticks s"
  "cubes (stop s) = cubes s"
  by (simp_all add: stop_def)

lemma start_fields [simp]:
  "trace (start s) = trace s @ [ThreadStart]"
  "mThreadRunning (start s) = True"
  "ticks (start s) = ticks s"
  "cubes (start s) = cubes s"
  by (simp_all add: start_def)

text \<open>A path that cannot be opened: the call returns false.\<close>

lemma installELF_not_opened:
  assumes "fs path = None"
  shows "\<exists>s'. installELF dev fs path s = Some (False, s')
     \<and> trace s' = trace s @ (if mThreadRunning s then [Wake, ThreadJoin] else [])
          @ [FlashInvalidate] @ (if mThreadRunning s then [ThreadStart] else [])
     \<and> mThreadRunning s' = mThreadRunning s"
  using assms by (simp add: installELF_def fopen_def Let_def)

text \<open>A stream that ends, on a device whose writes return: the call returns true.\<close>

lemma installELF_regular:
  assumes dev: "\<And>tr a bs. writeReturns dev tr a bs" and fs: "fs path = Some (img, EndOfFile)"
  shows "\<exists>s'. installELF dev fs path s = Some (True, s')
     \<and> trace s' = trace s @ (if mThreadRunning s then [Wake, ThreadJoin] else [])
          @ ChipErase # chunkWrites 0 img
          @ [FlashInvalidate] @ (if mThreadRunning s then [ThreadStart] else [])
     \<and> mThreadRunning s' = mThreadRunning s"
proof -
  let ?s1 = "if mThreadRunning s then stop s else s"
  let ?f = "\<lparr>content = img, tail = EndOfFile, eof = False, err = False\<rparr>"
  from writeLoop_regular [of dev ?f 0 "emit ChipErase ?s1", OF dev] obtain f' addr' where
    "writeLoop dev ?f 0 (emit ChipErase ?s1)
       = Some (f', addr', (emit ChipErase ?s1)\<lparr>trace := trace (emit ChipErase ?s1) @ chunkWrites 0 img\<rparr>)"
    by auto
  then show ?thesis
    using fs by (simp add: installELF_def fopen_def Let_def)
qed

text \<open>A stream that does not end: the call does not return, whatever the device.\<close>

lemma installELF_never_returns:
  assumes "fs path = Some (bs, tlx)" "tlx \<noteq> EndOfFile"
  shows "installELF dev fs path s = None"
proof -
  let ?s1 = "if mThreadRunning s then stop s else s"
  let ?f = "\<lparr>content = bs, tail = tlx, eof = False, err = False\<rparr>"
  have "writeLoop dev ?f 0 (emit ChipErase ?s1) = None"
  proof (rule ccontr)
    assume "writeLoop dev ?f 0 (emit ChipErase ?s1) \<noteq> None"
    then obtain r where "writeLoop dev ?f 0 (emit ChipErase ?s1) = Some r"
      by auto
    from writeLoop_Some_tail [OF this] assms(2) show False
      by simp
  qed
  then show ?thesis
    using assms(1) by (simp add: installELF_def fopen_def Let_def)
qed

text \<open>Every call that returns: the result, the events and the flag of the thread.\<close>

lemma installELF_returns:
  assumes "installELF dev fs path s = Some (ok, s')"
  shows "ok = (fs path \<noteq> None)"
    and "\<exists>fl. trace s' = trace s @ (if mThreadRunning s then [Wake, ThreadJoin] else [])
            @ fl @ [FlashInvalidate] @ (if mThreadRunning s then [ThreadStart] else [])
          \<and> (\<forall>e \<in> set fl. isFlashAccess e)"
    and "mThreadRunning s' = mThreadRunning s"
proof -
  let ?s1 = "if mThreadRunning s then stop s else s"
  have "ok = (fs path \<noteq> None)
    \<and> (\<exists>fl. trace s' = trace s @ (if mThreadRunning s then [Wake, ThreadJoin] else [])
            @ fl @ [FlashInvalidate] @ (if mThreadRunning s then [ThreadStart] else [])
          \<and> (\<forall>e \<in> set fl. isFlashAccess e))
    \<and> mThreadRunning s' = mThreadRunning s"
  proof (cases "fs path")
    case None
    from installELF_not_opened [of fs path dev s, OF None] obtain s'' where
      i: "installELF dev fs path s = Some (False, s'')"
      and t: "trace s'' = trace s @ (if mThreadRunning s then [Wake, ThreadJoin] else [])
          @ [FlashInvalidate] @ (if mThreadRunning s then [ThreadStart] else [])"
      and m: "mThreadRunning s'' = mThreadRunning s"
      by blast
    from i assms have e: "ok = False" "s' = s''"
      by simp_all
    have "trace s' = trace s @ (if mThreadRunning s then [Wake, ThreadJoin] else [])
            @ [] @ [FlashInvalidate] @ (if mThreadRunning s then [ThreadStart] else [])"
      unfolding e t by simp
    moreover have "\<forall>e \<in> set []. isFlashAccess e"
      by simp
    ultimately show ?thesis
      using None m e by blast
  next
    case (Some src)
    obtain bs tlx where src: "src = (bs, tlx)" by (cases src)
    let ?f = "\<lparr>content = bs, tail = tlx, eof = False, err = False\<rparr>"
    have op: "fopen fs path = Some ?f"
      by (simp add: fopen_def Some src)
    show ?thesis
    proof (cases "writeLoop dev ?f 0 (emit ChipErase ?s1)")
      case None
      then have "installELF dev fs path s = None"
        by (simp add: installELF_def op Let_def)
      with assms show ?thesis by simp
    next
      case (Some r)
      obtain f' a' s2 where r: "r = (f', a', s2)" by (cases r)
      let ?s3 = "emit FlashInvalidate s2"
      have "installELF dev fs path s = Some (True, if mThreadRunning s then start ?s3 else ?s3)"
        by (simp add: installELF_def op Let_def Some r)
      with assms have ok: "ok" and s': "s' = (if mThreadRunning s then start ?s3 else ?s3)"
        by simp_all
      from writeLoop_Some_facts [OF Some] obtain ws where
        t: "trace s2 = trace (emit ChipErase ?s1) @ ws"
        and ws: "\<forall>e \<in> set ws. \<exists>a bs. e = FlashWrite a bs"
        and m: "mThreadRunning s2 = mThreadRunning ?s1"
        unfolding r by auto
      have "trace s' = trace s @ (if mThreadRunning s then [Wake, ThreadJoin] else [])
              @ (ChipErase # ws) @ [FlashInvalidate] @ (if mThreadRunning s then [ThreadStart] else [])"
        using t by (simp add: s')
      moreover have "\<forall>e \<in> set (ChipErase # ws). isFlashAccess e"
        using ws by auto
      moreover have "mThreadRunning s' = mThreadRunning s"
        using m by (simp add: s')
      ultimately show ?thesis
        using ok \<open>fs path = Some src\<close> by blast
    qed
  qed
  then show "ok = (fs path \<noteq> None)"
    and "\<exists>fl. trace s' = trace s @ (if mThreadRunning s then [Wake, ThreadJoin] else [])
            @ fl @ [FlashInvalidate] @ (if mThreadRunning s then [ThreadStart] else [])
          \<and> (\<forall>e \<in> set fl. isFlashAccess e)"
    and "mThreadRunning s' = mThreadRunning s"
    by blast+
qed

subsection \<open>Reports, sequences of transactions, silent attempts\<close>

lemma isReport_reportFor [simp]: "isReport (reportFor es)"
  by (induction es rule: reportFor.induct) simp_all

lemma reportFor_Timeout_iff: "reportFor es = Timeout \<longleftrightarrow> \<not> list_ex isAcked es"
  by (induction es rule: reportFor.induct) simp_all

lemma report_no_ticks:
  assumes "isReport r"
  shows "attempts [r] = 0" "beginTicks [r] = []" "endTicks [r] = []" "windowBounds [r] = []"
  using assms by (cases r; simp add: attempts_def)+

lemma pairs_as_map:
  "concat (map (\<lambda>k. [f (Suc k), f (Suc (Suc k))]) [0..<n]) = map (\<lambda>j. f ((j + 3) div 2)) [0..<2 * n]"
proof (induction n)
  case 0
  show ?case by simp
next
  case (Suc n)
  have "[0..<2 * Suc n] = [0..<2 * n] @ [2 * n, Suc (2 * n)]"
    by simp
  moreover have "(2 * n + 3) div 2 = Suc n" "(Suc (2 * n) + 3) div 2 = Suc (Suc n)"
    by simp_all
  ultimately show ?case
    using Suc.IH by simp
qed

lemma txFacts_tickFacts: "txFacts t q m new \<Longrightarrow> tickFacts t q new"
  unfolding txFacts_def tickFacts_def
  using pairs_as_map [of "\<lambda>k. t + of_nat k * q" "attempts new"] by simp

lemma map_shift:
  fixes t q :: u64
  assumes "\<And>k. g (c * n1 + k) = n1 + g k"
  shows "map (\<lambda>k. t + of_nat (g k) * q) [0..<c * n1]
         @ map (\<lambda>k. (t + of_nat n1 * q) + of_nat (g k) * q) [0..<c * n2]
       = map (\<lambda>k. t + of_nat (g k) * q) [0..<c * (n1 + n2)]"
proof -
  have "[0..<c * n1 + c * n2] = [0..<c * n1] @ [c * n1..<c * n1 + c * n2]"
    by (rule upt_add_eq_append) simp
  moreover have "[c * n1..<c * n1 + c * n2] = map (\<lambda>k. c * n1 + k) [0..<c * n2]"
    using map_add_upt [of "c * n1" "c * n2"] by (simp only: add.commute)
  ultimately have "[0..<c * (n1 + n2)] = [0..<c * n1] @ map (\<lambda>k. c * n1 + k) [0..<c * n2]"
    by (simp only: distrib_left)
  then have "map (\<lambda>k. t + of_nat (g k) * q) [0..<c * (n1 + n2)]
      = map (\<lambda>k. t + of_nat (g k) * q) [0..<c * n1]
        @ map (\<lambda>k. t + of_nat (g (c * n1 + k)) * q) [0..<c * n2]"
    by (simp only: map_append map_map comp_def)
  also have "map (\<lambda>k. t + of_nat (g (c * n1 + k)) * q) [0..<c * n2]
      = map (\<lambda>k. (t + of_nat n1 * q) + of_nat (g k) * q) [0..<c * n2]"
    by (simp only: assms of_nat_add distrib_right add.assoc)
  finally show ?thesis by simp
qed

lemma tickFacts_append:
  assumes "tickFacts t q xs" "tickFacts (t + of_nat (attempts xs) * q) q ys"
  shows "tickFacts t q (xs @ ys)"
proof -
  let ?n1 = "attempts xs" and ?n2 = "attempts ys"
  have 1: "map (\<lambda>k. t + of_nat (Suc k) * q) [0..<1 * ?n1]
        @ map (\<lambda>k. (t + of_nat ?n1 * q) + of_nat (Suc k) * q) [0..<1 * ?n2]
      = map (\<lambda>k. t + of_nat (Suc k) * q) [0..<1 * (?n1 + ?n2)]"
    by (rule map_shift) simp
  have 2: "map (\<lambda>k. t + of_nat (Suc (Suc k)) * q) [0..<1 * ?n1]
        @ map (\<lambda>k. (t + of_nat ?n1 * q) + of_nat (Suc (Suc k)) * q) [0..<1 * ?n2]
      = map (\<lambda>k. t + of_nat (Suc (Suc k)) * q) [0..<1 * (?n1 + ?n2)]"
    by (rule map_shift) simp
  have 3: "map (\<lambda>k. t + of_nat ((k + 3) div 2) * q) [0..<2 * ?n1]
        @ map (\<lambda>k. (t + of_nat ?n1 * q) + of_nat ((k + 3) div 2) * q) [0..<2 * ?n2]
      = map (\<lambda>k. t + of_nat ((k + 3) div 2) * q) [0..<2 * (?n1 + ?n2)]"
    by (rule map_shift) simp
  from assms show ?thesis
    unfolding tickFacts_def using 1 2 3 by simp
qed

lemma tickFacts_report:
  assumes "tickFacts t q xs" "isReport r"
  shows "tickFacts t q (xs @ [r])"
  using assms by (simp add: tickFacts_def report_no_ticks)


lemma doRadioPacket_facts:
  assumes "dest ptx = Some d"
  shows "\<exists>s' new. doRadioPacket cfg ptx s = Inr s'
     \<and> trace s' = trace s @ new @ [reportFor new]
     \<and> txFacts (ticks s) (TICKS_PER_PACKET cfg) (MAX_RETRIES cfg) new
     \<and> ticks s' = ticks s + of_nat (attempts new) * TICKS_PER_PACKET cfg
     \<and> mThreadRunning s' = mThreadRunning s"
  using retryLoop_facts [of cfg d "\<lparr>plen = len (packet ptx), payload = bytes (packet ptx)\<rparr>"
      "\<lparr>plen = 0, payload = replicate (PAYLOAD_MAX cfg) 0\<rparr>" 0 s] assms
  by (simp add: doRadioPacket_def)

lemma transactions_facts:
  assumes "list_all (\<lambda>ptx. dest ptx \<noteq> None) ptxs"
  shows "\<exists>s' new. transactions cfg ptxs s = Inr s'
     \<and> trace s' = trace s @ new
     \<and> tickFacts (ticks s) (TICKS_PER_PACKET cfg) new
     \<and> ticks s' = ticks s + of_nat (attempts new) * TICKS_PER_PACKET cfg
     \<and> length (filter isReport new) = length ptxs"
  using assms
proof (induction ptxs arbitrary: s)
  case Nil
  show ?case by (simp add: tickFacts_def)
next
  case (Cons ptx ptxs)
  let ?q = "TICKS_PER_PACKET cfg"
  from Cons.prems obtain d where d: "dest ptx = Some d" by auto
  from doRadioPacket_facts [OF d, of cfg s] obtain s1 new1 where
    r: "doRadioPacket cfg ptx s = Inr s1"
    and t1: "trace s1 = trace s @ new1 @ [reportFor new1]"
    and f1: "txFacts (ticks s) ?q (MAX_RETRIES cfg) new1"
    and k1: "ticks s1 = ticks s + of_nat (attempts new1) * ?q"
    by blast
  from Cons.prems have "list_all (\<lambda>ptx. dest ptx \<noteq> None) ptxs" by simp
  from Cons.IH [OF this, of s1] obtain s2 new2 where
    r2: "transactions cfg ptxs s1 = Inr s2"
    and t2: "trace s2 = trace s1 @ new2"
    and f2: "tickFacts (ticks s1) ?q new2"
    and k2: "ticks s2 = ticks s1 + of_nat (attempts new2) * ?q"
    and n2: "length (filter isReport new2) = length ptxs"
    by blast
  let ?new = "(new1 @ [reportFor new1]) @ new2"
  have a1: "attempts (new1 @ [reportFor new1]) = attempts new1"
    by (simp add: report_no_ticks)
  have "tickFacts (ticks s) ?q (new1 @ [reportFor new1])"
    by (rule tickFacts_report [OF txFacts_tickFacts [OF f1]]) simp
  then have "tickFacts (ticks s) ?q ?new"
    by (rule tickFacts_append) (use f2 k1 a1 in simp)
  moreover have "transactions cfg (ptx # ptxs) s = Inr s2"
    by (simp add: r r2)
  moreover have "trace s2 = trace s @ ?new"
    by (simp add: t1 t2)
  moreover have "attempts [reportFor new1] = 0"
    by (simp add: report_no_ticks(1))
  then have "attempts ?new = attempts new1 + attempts new2"
    by (simp only: attempts_append)
  then have "ticks s2 = ticks s + of_nat (attempts ?new) * ?q"
    unfolding k2 k1 by (simp add: algebra_simps)
  moreover have "filter isReport new1 = []"
    using f1 by (simp add: txFacts_def list_ex_iff filter_empty_conv)
  then have "length (filter isReport ?new) = length (ptx # ptxs)"
    by (simp add: n2)
  ultimately show ?case by blast
qed

text \<open>With no cube at the address, every attempt is silent.\<close>

lemma silentAttempts_Suc:
  "silentAttempts t q r (Suc n)
     = [BeginEventAt (t + q) r, EndEvent (t + q + q)] @ silentAttempts (t + q) q r n"
  unfolding silentAttempts_def map_upt_Suc
  by (simp add: algebra_simps)

lemma attempt_silent:
  assumes "getCubeForAddress cfg s d = None"
  shows "attempt cfg d pkt reply s = (False, reply, endPacket cfg (beginPacket cfg s))"
  using assms by (simp add: attempt_def Let_def)

lemma retryLoop_silent:
  assumes "getCubeForAddress cfg s d = None"
  shows "retry + n = MAX_RETRIES cfg \<Longrightarrow>
     retryLoop cfg d pkt reply retry s
       = s\<lparr>ticks := ticks s + of_nat n * TICKS_PER_PACKET cfg,
            trace := trace s @ silentAttempts (ticks s) (TICKS_PER_PACKET cfg) (mThreadRunning s) n
                       @ [Timeout]\<rparr>"
  using assms
proof (induction n arbitrary: retry s)
  case 0
  then show ?case
    by (subst retryLoop.simps) (simp add: emit_def silentAttempts_def)
next
  case (Suc n)
  let ?q = "TICKS_PER_PACKET cfg"
  let ?s' = "endPacket cfg (beginPacket cfg s)"
  have lt: "retry < MAX_RETRIES cfg" using Suc.prems(1) by simp
  have none: "getCubeForAddress cfg ?s' d = None"
    using Suc.prems(2) by (simp add: getCubeForAddress_def)
  have "retryLoop cfg d pkt reply retry s = retryLoop cfg d pkt reply (Suc retry) ?s'"
    using lt by (subst retryLoop.simps) (simp add: attempt_silent [OF Suc.prems(2)])
  also have "\<dots> = ?s'\<lparr>ticks := ticks ?s' + of_nat n * ?q,
        trace := trace ?s' @ silentAttempts (ticks ?s') ?q (mThreadRunning ?s') n @ [Timeout]\<rparr>"
    by (rule Suc.IH [OF _ none]) (use Suc.prems(1) in simp)
  also have "\<dots> = s\<lparr>ticks := ticks s + of_nat (Suc n) * ?q,
        trace := trace s @ silentAttempts (ticks s) ?q (mThreadRunning s) (Suc n) @ [Timeout]\<rparr>"
  proof -
    have s': "?s' = s\<lparr>ticks := ticks s + ?q,
        trace := trace s @ [BeginEventAt (ticks s + ?q) (mThreadRunning s), EndEvent (ticks s + ?q + ?q)]\<rparr>"
      by (simp add: beginPacket_def endPacket_def emit_def Let_def)
    have w: "ticks s + ?q + of_nat n * ?q = ticks s + of_nat (Suc n) * ?q"
      by (simp add: algebra_simps)
    show ?thesis
      unfolding s' silentAttempts_Suc w [symmetric] by simp
  qed
  finally show ?case .
qed

lemma silentAttempts_count:
  "attempts (silentAttempts t q r n) = n
   \<and> filter isReport (silentAttempts t q r n) = []
   \<and> filter isAcked (silentAttempts t q r n) = []"
proof (induction n arbitrary: t)
  case 0
  show ?case by (simp add: silentAttempts_def)
next
  case (Suc n)
  then show ?case by (simp add: silentAttempts_Suc)
qed

section \<open>The claims\<close>

subsection \<open>Three concrete transactions\<close>

text \<open>
  Scenario A of the specification (a cube at the address, which acknowledges with one
  byte), its scenario B (no cube at all), and a transaction with no cube that starts
  with the tick counter at \<open>2 ^ 64 - 1\<close>.
\<close>

lemma scenario_A:
  "doRadioPacket cfgEx ptxEx sOne
     = Inr (sOne\<lparr>ticks := 7200,
              trace := [BeginEventAt 7200 True, HandlePacket 0 True \<lparr>plen = 1, payload = [0x42]\<rparr>,
                        EndEvent 14400, AckWithPacket \<lparr>bytes = [0x42], len = 1\<rparr>]\<rparr>)"
  by (simp add: doRadioPacket_def ptxEx_def cfgEx_def sOne_def retryLoop.simps attempt_def
        beginPacket_def endPacket_def emit_def respond_def getCubeForAddress_def scanCubes.simps Let_def)

lemma scenario_B:
  "doRadioPacket cfgEx ptxEx sNone
     = Inr (sNone\<lparr>ticks := 21600,
              trace := [BeginEventAt 7200 True, EndEvent 14400, BeginEventAt 14400 True, EndEvent 21600,
                        BeginEventAt 21600 True, EndEvent 28800, Timeout]\<rparr>)"
  by (simp add: doRadioPacket_def ptxEx_def cfgEx_def sNone_def retryLoop.simps attempt_def
        beginPacket_def endPacket_def emit_def respond_def getCubeForAddress_def scanCubes.simps Let_def)

lemma scenario_wrap:
  "doRadioPacket cfgEx ptxEx sWrap
     = Inr (sWrap\<lparr>ticks := 21599,
              trace := [BeginEventAt 7199 True, EndEvent 14399, BeginEventAt 14399 True, EndEvent 21599,
                        BeginEventAt 21599 True, EndEvent 28799, Timeout]\<rparr>)"
  by (simp add: doRadioPacket_def ptxEx_def cfgEx_def sWrap_def retryLoop.simps attempt_def
        beginPacket_def endPacket_def emit_def respond_def getCubeForAddress_def scanCubes.simps Let_def)

subsection \<open>The radio transaction\<close>

text \<open>
  Claim C1. A transaction whose destination is not null delivers exactly one report to
  \<^verbatim>\<open>RadioManager\<close>, as the last thing it does. Among the events \<open>new\<close> of its
  attempts there is no report, and the report is \<open>reportFor new\<close>:
  \<^verbatim>\<open>ackWithPacket\<close> with the reply when a cube acknowledged with a reply of non-zero
  length, \<^verbatim>\<open>ackEmpty\<close> when it acknowledged with a reply of length zero, and
  \<^verbatim>\<open>timeout\<close> exactly when no attempt was acknowledged, in which case all
  \<^verbatim>\<open>MAX_RETRIES\<close> attempts were made.
\<close>

theorem doRadioPacket_one_report:
  assumes "dest ptx = Some d"
  shows "\<exists>s' new. doRadioPacket cfg ptx s = Inr s'
     \<and> trace s' = trace s @ new @ [reportFor new]
     \<and> filter isReport (new @ [reportFor new]) = [reportFor new]
     \<and> (reportFor new = Timeout \<longleftrightarrow> \<not> list_ex isAcked new)
     \<and> (reportFor new = Timeout \<longrightarrow> attempts new = MAX_RETRIES cfg)"
proof -
  from doRadioPacket_facts [OF assms, of cfg s] obtain s' new where
    r: "doRadioPacket cfg ptx s = Inr s'"
    and t: "trace s' = trace s @ new @ [reportFor new]"
    and f: "txFacts (ticks s) (TICKS_PER_PACKET cfg) (MAX_RETRIES cfg) new"
    by blast
  from f have "filter isReport new = []"
    by (simp add: txFacts_def list_ex_iff filter_empty_conv)
  then have "filter isReport (new @ [reportFor new]) = [reportFor new]"
    by simp
  moreover from f have "reportFor new = Timeout \<longrightarrow> attempts new = MAX_RETRIES cfg"
    by (simp add: txFacts_def)
  ultimately show ?thesis
    using r t reportFor_Timeout_iff [of new] by blast
qed

text \<open>The transaction of scenario A meets the hypothesis.\<close>

theorem doRadioPacket_one_report_witness:
  "dest ptxEx = Some \<lparr>channel = 0, addr_id = [0xAB, 0xCD]\<rparr>
   \<and> (\<exists>s' new. doRadioPacket cfgEx ptxEx sOne = Inr s'
     \<and> trace s' = trace sOne @ new @ [reportFor new]
     \<and> filter isReport (new @ [reportFor new]) = [reportFor new]
     \<and> (reportFor new = Timeout \<longleftrightarrow> \<not> list_ex isAcked new)
     \<and> (reportFor new = Timeout \<longrightarrow> attempts new = MAX_RETRIES cfgEx))"
  using doRadioPacket_one_report [of ptxEx "\<lparr>channel = 0, addr_id = [0xAB, 0xCD]\<rparr>" cfgEx sOne]
  by (simp add: ptxEx_def)

text \<open>
  Claim C2, as stated, fails: the tick counter is a 64-bit unsigned integer, and three
  attempts from \<open>2 ^ 64 - 1\<close> leave it at \<open>21599\<close>, below where it started.
\<close>

theorem tick_counter_wraps:
  "map_sum id ticks (doRadioPacket cfgEx ptxEx sWrap) = Inr 21599
   \<and> ticks sWrap = 18446744073709551615
   \<and> (21599 :: u64) < 18446744073709551615"
  by (simp add: scenario_wrap) (simp add: sWrap_def)

text \<open>
  Claim C2, amended. Over every sequence of transactions with non-null destinations,
  the tick counter advances by exactly \<^verbatim>\<open>TICKS_PER_PACKET\<close> per attempt in 64-bit
  arithmetic, whatever the outcome of the attempt: the \<open>k\<close>-th attempt (from 0) sees
  the start value plus \<open>k + 1\<close> quanta, and the counter ends at the start value plus
  one quantum per attempt. As long as that sum stays below \<open>2 ^ 64\<close>, the counter
  never decreases and the advance is exact over the naturals as well.
\<close>

theorem transactions_ticks:
  assumes "list_all (\<lambda>ptx. dest ptx \<noteq> None) ptxs"
  shows "\<exists>s' new. transactions cfg ptxs s = Inr s'
     \<and> trace s' = trace s @ new
     \<and> beginTicks new = map (\<lambda>k. ticks s + of_nat (Suc k) * TICKS_PER_PACKET cfg) [0..<attempts new]
     \<and> ticks s' = ticks s + of_nat (attempts new) * TICKS_PER_PACKET cfg
     \<and> (unat (ticks s) + attempts new * unat (TICKS_PER_PACKET cfg) < 2 ^ 64 \<longrightarrow>
          sorted (ticks s # beginTicks new)
          \<and> unat (ticks s') = unat (ticks s) + attempts new * unat (TICKS_PER_PACKET cfg))"
proof -
  let ?q = "TICKS_PER_PACKET cfg"
  from transactions_facts [OF assms, of cfg s] obtain s' new where
    r: "transactions cfg ptxs s = Inr s'"
    and t: "trace s' = trace s @ new"
    and f: "tickFacts (ticks s) ?q new"
    and k: "ticks s' = ticks s + of_nat (attempts new) * ?q"
    by blast
  from f have b: "beginTicks new = map (\<lambda>k. ticks s + of_nat (Suc k) * ?q) [0..<attempts new]"
    by (simp add: tickFacts_def)
  have "sorted (ticks s # beginTicks new)
      \<and> unat (ticks s') = unat (ticks s) + attempts new * unat ?q"
    if nowrap: "unat (ticks s) + attempts new * unat ?q < 2 ^ 64"
  proof
    have "sorted (map (\<lambda>k. ticks s + of_nat k * ?q) [0..<Suc (attempts new)])"
      by (rule sorted_advance [where g = "\<lambda>k. k"]) (use nowrap in simp_all)
    then show "sorted (ticks s # beginTicks new)"
      unfolding b map_upt_Suc by simp
    show "unat (ticks s') = unat (ticks s) + attempts new * unat ?q"
      unfolding k by (rule unat_advance [OF nowrap])
  qed
  with r t b k show ?thesis by blast
qed

text \<open>Two transactions to the cube of scenario A.\<close>

theorem transactions_ticks_witness:
  "list_all (\<lambda>ptx. dest ptx \<noteq> None) [ptxEx, ptxEx]
   \<and> (\<exists>s' new. transactions cfgEx [ptxEx, ptxEx] sOne = Inr s'
     \<and> trace s' = trace sOne @ new
     \<and> beginTicks new = map (\<lambda>k. ticks sOne + of_nat (Suc k) * TICKS_PER_PACKET cfgEx) [0..<attempts new]
     \<and> ticks s' = ticks sOne + of_nat (attempts new) * TICKS_PER_PACKET cfgEx
     \<and> (unat (ticks sOne) + attempts new * unat (TICKS_PER_PACKET cfgEx) < 2 ^ 64 \<longrightarrow>
          sorted (ticks sOne # beginTicks new)
          \<and> unat (ticks s') = unat (ticks sOne) + attempts new * unat (TICKS_PER_PACKET cfgEx)))"
  using transactions_ticks [of "[ptxEx, ptxEx]" cfgEx sOne]
  by (simp add: ptxEx_def)

text \<open>
  Claim C3. When the destination is not null and no cube has its packed address, the
  transaction makes exactly \<^verbatim>\<open>MAX_RETRIES\<close> attempts, each a
  \<^verbatim>\<open>beginEventAt\<close> and an \<^verbatim>\<open>endEvent\<close> and nothing else, then reports one
  \<^verbatim>\<open>timeout\<close>; nothing follows, the tick counter has advanced by
  \<^verbatim>\<open>MAX_RETRIES\<close> quanta, and the rest of the state is as it was.
\<close>

theorem unresolved_destination_times_out:
  assumes "dest ptx = Some d" and "getCubeForAddress cfg s d = None"
  shows "doRadioPacket cfg ptx s
       = Inr (s\<lparr>ticks := ticks s + of_nat (MAX_RETRIES cfg) * TICKS_PER_PACKET cfg,
                trace := trace s
                  @ silentAttempts (ticks s) (TICKS_PER_PACKET cfg) (mThreadRunning s) (MAX_RETRIES cfg)
                  @ [Timeout]\<rparr>)
     \<and> attempts (silentAttempts (ticks s) (TICKS_PER_PACKET cfg) (mThreadRunning s) (MAX_RETRIES cfg)
                   @ [Timeout]) = MAX_RETRIES cfg
     \<and> filter isReport (silentAttempts (ticks s) (TICKS_PER_PACKET cfg) (mThreadRunning s) (MAX_RETRIES cfg)
                   @ [Timeout]) = [Timeout]"
proof -
  have "attempts [Timeout] = 0"
    by (simp add: attempts_def)
  then show ?thesis
    using assms retryLoop_silent [OF assms(2), of 0 "MAX_RETRIES cfg"]
    by (simp add: doRadioPacket_def silentAttempts_count)
qed

text \<open>Scenario B: no cube, three retries, three attempts and a timeout.\<close>

theorem unresolved_destination_times_out_witness:
  "dest ptxEx = Some \<lparr>channel = 0, addr_id = [0xAB, 0xCD]\<rparr>
   \<and> getCubeForAddress cfgEx sNone \<lparr>channel = 0, addr_id = [0xAB, 0xCD]\<rparr> = None
   \<and> doRadioPacket cfgEx ptxEx sNone
       = Inr (sNone\<lparr>ticks := 3 * 7200,
                trace := [BeginEventAt 7200 True, EndEvent 14400, BeginEventAt 14400 True,
                          EndEvent 21600, BeginEventAt 21600 True, EndEvent 28800, Timeout]\<rparr>)"
proof -
  have d: "dest ptxEx = Some \<lparr>channel = 0, addr_id = [0xAB, 0xCD]\<rparr>"
    by (simp add: ptxEx_def)
  have n: "getCubeForAddress cfgEx sNone \<lparr>channel = 0, addr_id = [0xAB, 0xCD]\<rparr> = None"
    by (simp add: getCubeForAddress_def sNone_def scanCubes.simps)
  from unresolved_destination_times_out [OF d n] d n show ?thesis
    by (simp add: silentAttempts_def cfgEx_def sNone_def eval_nat_numeral)
qed

text \<open>
  Claim C4. \<^verbatim>\<open>doRadioPacket\<close> aborts on its assertion exactly when the packet
  produced has a null destination; with a destination that is not null the abort is not
  reached and the transaction returns.
\<close>

theorem null_destination_aborts:
  "(doRadioPacket cfg ptx s = Inl AssertionFailed \<longleftrightarrow> dest ptx = None)
   \<and> ((\<exists>s'. doRadioPacket cfg ptx s = Inr s') \<longleftrightarrow> dest ptx \<noteq> None)"
  by (cases "dest ptx") (simp_all add: doRadioPacket_def)

text \<open>A packet with a null destination, and the packet of scenario A.\<close>

theorem null_destination_aborts_witness:
  "doRadioPacket cfgEx ptxNull sOne = Inl AssertionFailed
   \<and> (\<exists>s'. doRadioPacket cfgEx ptxEx sOne = Inr s')"
  using null_destination_aborts [of cfgEx ptxNull sOne] null_destination_aborts [of cfgEx ptxEx sOne]
  by (simp add: ptxNull_def ptxEx_def)

subsection \<open>The rendezvous windows\<close>

lemma strict_sorted_advance:
  fixes t q :: u64
  assumes "unat t + g n * unat q < 2 ^ 64" "q \<noteq> 0"
    and g: "\<And>i j. i < j \<Longrightarrow> g i < g j"
  shows "sorted_wrt (<) (map (\<lambda>k. t + of_nat (g k) * q) [0..<Suc n])"
proof -
  have "sorted_wrt (\<lambda>i j. t + of_nat (g i) * q < t + of_nat (g j) * q) [0..<Suc n]"
  proof (rule sorted_wrt_mono_rel [OF _ sorted_wrt_upt])
    fix i j assume ij: "i \<in> set [0..<Suc n]" "j \<in> set [0..<Suc n]" "i < j"
    then have "g i < g j" by (auto intro: g)
    moreover have "g j \<le> g n"
    proof (cases "j = n")
      case True then show ?thesis by simp
    next
      case False with ij have "j < n" by simp
      then show ?thesis using g [of j n] by simp
    qed
    ultimately show "t + of_nat (g i) * q < t + of_nat (g j) * q"
      using assms(1,2) by (intro advance_strict [where n = "g n"])
  qed
  then show ?thesis by (simp only: sorted_wrt_map)
qed

lemma sorted_opens:
  fixes t q :: u64
  assumes "unat t + (m + c) * unat q < 2 ^ 64" "q \<noteq> 0"
  shows "sorted_wrt (<) (map (\<lambda>k. t + of_nat (k + c) * q) [0..<Suc m])"
  using assms by (rule strict_sorted_advance) simp

lemma sorted_windows:
  fixes t q :: u64
  assumes "unat t + Suc n * unat q < 2 ^ 64"
  shows "sorted (map (\<lambda>j. t + of_nat ((j + 3) div 2) * q) [0..<2 * n])"
proof (cases n)
  case 0
  then show ?thesis by simp
next
  case (Suc m)
  have e: "2 * n = Suc (Suc (2 * m))" "(Suc (2 * m) + 3) div 2 = Suc n"
    unfolding Suc by simp_all
  show ?thesis
    unfolding e(1)
    by (rule sorted_advance) (use assms e(2) in \<open>simp_all add: div_le_mono\<close>)
qed

text \<open>
  Claim C5, as stated, fails: \<^verbatim>\<open>endPacket\<close> re-arms the window to the tick of the
  next transmit opportunity, and the next \<^verbatim>\<open>beginPacket\<close> opens its window at that
  same tick. In scenario B the bounds given to the cube synchronisation are 7200, 14400,
  14400, 21600, 21600, 28800: each bound of an \<^verbatim>\<open>endEvent\<close> is repeated by the
  \<^verbatim>\<open>beginEventAt\<close> that follows.
\<close>

theorem window_bounds_repeat:
  "map_sum id (\<lambda>s'. windowBounds (trace s')) (doRadioPacket cfgEx ptxEx sNone)
     = Inr [7200, 14400, 14400, 21600, 21600, 28800]
   \<and> \<not> sorted_wrt (<) [7200, 14400, 14400, 21600, 21600, 28800 :: u64]"
  by (simp add: scenario_B)

text \<open>
  Claim C5, amended. Over every sequence of transactions with non-null destinations,
  the \<open>k\<close>-th window (from 0) is opened at the start tick plus \<open>k + 1\<close> quanta and
  re-armed to the start tick plus \<open>k + 2\<close> quanta, in 64-bit arithmetic. When the
  quantum is not zero and the last bound stays below \<open>2 ^ 64\<close>, the bounds in the
  order of the calls never decrease, the bounds of the \<^verbatim>\<open>beginEventAt\<close> calls are
  strictly increasing, and so are the bounds of the \<^verbatim>\<open>endEvent\<close> calls.
\<close>

theorem window_bounds:
  assumes "list_all (\<lambda>ptx. dest ptx \<noteq> None) ptxs"
  shows "\<exists>s' new. transactions cfg ptxs s = Inr s'
     \<and> trace s' = trace s @ new
     \<and> beginTicks new = map (\<lambda>k. ticks s + of_nat (k + 1) * TICKS_PER_PACKET cfg) [0..<attempts new]
     \<and> endTicks new = map (\<lambda>k. ticks s + of_nat (k + 2) * TICKS_PER_PACKET cfg) [0..<attempts new]
     \<and> windowBounds new
         = map (\<lambda>j. ticks s + of_nat ((j + 3) div 2) * TICKS_PER_PACKET cfg) [0..<2 * attempts new]
     \<and> (TICKS_PER_PACKET cfg \<noteq> 0
          \<and> unat (ticks s) + (attempts new + 1) * unat (TICKS_PER_PACKET cfg) < 2 ^ 64 \<longrightarrow>
            sorted (windowBounds new)
            \<and> sorted_wrt (<) (beginTicks new)
            \<and> sorted_wrt (<) (endTicks new))"
proof -
  let ?q = "TICKS_PER_PACKET cfg"
  from transactions_facts [OF assms, of cfg s] obtain s' new where
    r: "transactions cfg ptxs s = Inr s'"
    and t: "trace s' = trace s @ new"
    and f: "tickFacts (ticks s) ?q new"
    by blast
  let ?n = "attempts new"
  from f have b: "beginTicks new = map (\<lambda>k. ticks s + of_nat (k + 1) * ?q) [0..<?n]"
    and e: "endTicks new = map (\<lambda>k. ticks s + of_nat (k + 2) * ?q) [0..<?n]"
    and w: "windowBounds new = map (\<lambda>j. ticks s + of_nat ((j + 3) div 2) * ?q) [0..<2 * ?n]"
    by (simp_all add: tickFacts_def)
  have "sorted (windowBounds new) \<and> sorted_wrt (<) (beginTicks new) \<and> sorted_wrt (<) (endTicks new)"
    if q: "?q \<noteq> 0" and nowrap: "unat (ticks s) + (?n + 1) * unat ?q < 2 ^ 64"
  proof (cases ?n)
    case 0
    then show ?thesis by (simp add: b e w)
  next
    case (Suc m)
    from nowrap have 1: "unat (ticks s) + Suc ?n * unat ?q < 2 ^ 64"
      by simp
    have 2: "unat (ticks s) + (m + 2) * unat ?q < 2 ^ 64"
      using nowrap unfolding Suc by simp
    have "unat (ticks s) + (m + 1) * unat ?q \<le> unat (ticks s) + (m + 2) * unat ?q"
      by simp
    with 2 have 3: "unat (ticks s) + (m + 1) * unat ?q < 2 ^ 64"
      by linarith
    have "sorted (windowBounds new)"
      unfolding w using 1 by (rule sorted_windows)
    moreover have "sorted_wrt (<) (beginTicks new)"
      unfolding b Suc using 3 q by (rule sorted_opens)
    moreover have "sorted_wrt (<) (endTicks new)"
      unfolding e Suc using 2 q by (rule sorted_opens)
    ultimately show ?thesis by simp
  qed
  with r t b e w show ?thesis by blast
qed

theorem window_bounds_witness:
  "list_all (\<lambda>ptx. dest ptx \<noteq> None) [ptxEx, ptxEx]
   \<and> (\<exists>s' new. transactions cfgEx [ptxEx, ptxEx] sNone = Inr s'
     \<and> trace s' = trace sNone @ new
     \<and> beginTicks new = map (\<lambda>k. ticks sNone + of_nat (k + 1) * TICKS_PER_PACKET cfgEx) [0..<attempts new]
     \<and> endTicks new = map (\<lambda>k. ticks sNone + of_nat (k + 2) * TICKS_PER_PACKET cfgEx) [0..<attempts new]
     \<and> windowBounds new
         = map (\<lambda>j. ticks sNone + of_nat ((j + 3) div 2) * TICKS_PER_PACKET cfgEx) [0..<2 * attempts new]
     \<and> (TICKS_PER_PACKET cfgEx \<noteq> 0
          \<and> unat (ticks sNone) + (attempts new + 1) * unat (TICKS_PER_PACKET cfgEx) < 2 ^ 64 \<longrightarrow>
            sorted (windowBounds new)
            \<and> sorted_wrt (<) (beginTicks new)
            \<and> sorted_wrt (<) (endTicks new)))"
  using window_bounds [of "[ptxEx, ptxEx]" cfgEx sNone]
  by (simp add: ptxEx_def)

subsection \<open>The tick conversion\<close>

text \<open>
  Claim C9. \<^verbatim>\<open>SysTime::ticks\<close> is the tick counter times 1000, shifted right by
  four bits, in 64-bit integer arithmetic. For every tick count of up to 320000
  simulated hours at 16 MHz the product does not overflow, and the result is the exact
  value: the floor of 62.5 ns times the tick count.
\<close>

theorem SysTime_ticks_fixed_point:
  "SysTime_ticks s = drop_bit 4 (ticks s * 1000)
   \<and> (unat (ticks s) \<le> 320000 * 3600 * TICK_HZ \<longrightarrow>
        unat (ticks s) * 1000 < 2 ^ 64
        \<and> unat (SysTime_ticks s) = unat (ticks s) * 1000 div 16)"
proof -
  have "SysTime_ticks s = drop_bit 4 (ticks s * 1000)"
    by (simp only: SysTime_ticks_def hzTicks_const)
  moreover have "unat (ticks s) * 1000 < 2 ^ 64"
    if "unat (ticks s) \<le> 320000 * 3600 * TICK_HZ"
    using that by (simp add: TICK_HZ_def)
  ultimately show ?thesis
    using SysTime_ticks_exact [of s] by blast
qed

text \<open>One hour of ticks is 3600 seconds, in nanoseconds.\<close>

theorem SysTime_ticks_fixed_point_witness:
  "unat (ticks sHour) \<le> 320000 * 3600 * TICK_HZ
   \<and> unat (ticks sHour) = 3600 * TICK_HZ
   \<and> unat (SysTime_ticks sHour) = 3600 * 1000000000"
  using SysTime_ticks_fixed_point [of sHour]
  by (simp add: sHour_def TICK_HZ_def)

subsection \<open>Installing an image\<close>

text \<open>Scenario D of the specification: an image of four bytes, installed while the
  thread runs, on a device whose writes return.\<close>

lemma devAny_returns: "writeReturns devAny tr a bs"
  by (simp add: devAny_def)

lemma scenario_D:
  "\<exists>s'. installELF devAny fsEx ''game.elf'' sOne = Some (True, s')
     \<and> trace s' = [Wake, ThreadJoin, ChipErase, FlashWrite 0 [0x7F, 0x45, 0x4C, 0x46],
                    FlashInvalidate, ThreadStart]
     \<and> mThreadRunning s' = mThreadRunning sOne"
  using installELF_regular [of devAny fsEx "''game.elf''" "[0x7F, 0x45, 0x4C, 0x46]" sOne]
  by (simp add: devAny_returns fsEx_def sOne_def chunkWrites_short)

text \<open>
  An image of 1025 bytes. \<^verbatim>\<open>installELF\<close> compares nothing with a capacity: what
  becomes of an image larger than the store (claim C6) is decided by
  \<^verbatim>\<open>FlashDevice::write\<close> alone. On a device whose writes return, the image is
  reported as installed, its last byte written at address 1024.
\<close>

lemma install_big_returns:
  "\<exists>s'. installELF devAny fsEx ''big.elf'' sOne = Some (True, s')
     \<and> trace s' = [Wake, ThreadJoin, ChipErase,
                    FlashWrite 0 (replicate 512 0xFF), FlashWrite 512 (replicate 512 0xFF),
                    FlashWrite 1024 [0xFF], FlashInvalidate, ThreadStart]
     \<and> mThreadRunning s' = mThreadRunning sOne"
  using installELF_regular [of devAny fsEx "''big.elf''" "replicate 1025 0xFF" sOne]
  by (simp add: devAny_returns fsEx_def sOne_def chunkWrites_long chunkWrites_short)

text \<open>On a device that ends the process on a write past 1024 bytes, the same call does
  not return.\<close>

lemma install_big_refused:
  "installELF (devBounded 1024) fsEx ''big.elf'' sOne = None"
proof -
  let ?dev = "devBounded 1024"
  let ?f0 = "\<lparr>content = replicate 1025 (0xFF :: u8), tail = EndOfFile, eof = False, err = False\<rparr>"
  let ?f1 = "\<lparr>content = replicate 513 (0xFF :: u8), tail = EndOfFile, eof = False, err = False\<rparr>"
  let ?f2 = "\<lparr>content = [0xFF :: u8], tail = EndOfFile, eof = False, err = False\<rparr>"
  let ?f3 = "\<lparr>content = [] :: u8 list, tail = EndOfFile, eof = True, err = False\<rparr>"
  let ?s0 = "emit ChipErase (stop sOne)"
  let ?s1 = "emit (FlashWrite 0 (replicate 512 0xFF)) ?s0"
  let ?s2 = "emit (FlashWrite 512 (replicate 512 0xFF)) ?s1"
  have "writeLoop ?dev ?f0 0 ?s0 = writeLoop ?dev ?f1 512 ?s1"
    by (subst writeLoop_write [of ?f0 "replicate 512 0xFF" ?f1])
       (simp_all add: fread_def FlashDevice_write_def devBounded_def)
  also have "\<dots> = writeLoop ?dev ?f2 1024 ?s2"
    by (subst writeLoop_write [of ?f1 "replicate 512 0xFF" ?f2])
       (simp_all add: fread_def FlashDevice_write_def devBounded_def)
  also have "\<dots> = None"
    by (subst writeLoop_write [of ?f2 "[0xFF]" ?f3])
       (simp_all add: fread_def FlashDevice_write_def devBounded_def)
  finally show ?thesis
    by (simp add: installELF_def fopen_def fsEx_def sOne_def Let_def)
qed

text \<open>
  Claim C7: every call of \<^verbatim>\<open>installELF\<close> invalidates the flash block cache exactly
  once, after the write phase and before the thread is restarted. That is so for every
  call that returns (lemma \<open>installELF_returns\<close>), but not every call returns. On a
  path that names a directory \<^verbatim>\<open>fopen\<close> succeeds and every \<^verbatim>\<open>fread\<close> fails: it
  delivers nothing and sets the error indicator, never the end-of-file indicator. The
  loop tests \<^verbatim>\<open>feof\<close> only, so the call does not return and
  \<^verbatim>\<open>FlashBlock::invalidate\<close>, which stands after the loop, is not reached. The path
  on which \<^verbatim>\<open>fopen\<close> fails does reach it.
\<close>

theorem installELF_directory_never_invalidates:
  "fopen fsEx ''dir'' = Some \<lparr>content = [], tail = ReadError, eof = False, err = False\<rparr>
   \<and> fread 512 \<lparr>content = [], tail = ReadError, eof = False, err = False\<rparr>
       = ([], \<lparr>content = [], tail = ReadError, eof = False, err = True\<rparr>)
   \<and> fread 512 \<lparr>content = [], tail = ReadError, eof = False, err = True\<rparr>
       = ([], \<lparr>content = [], tail = ReadError, eof = False, err = True\<rparr>)
   \<and> installELF devAny fsEx ''dir'' sOne = None
   \<and> installELF devAny fsEx ''missing.elf'' sOne
       = Some (False, sOne\<lparr>trace := [Wake, ThreadJoin, FlashInvalidate, ThreadStart]\<rparr>)"
proof -
  have "installELF devAny fsEx ''dir'' sOne = None"
    by (rule installELF_never_returns [of fsEx _ "[]" ReadError]) (simp_all add: fsEx_def)
  moreover have "installELF devAny fsEx ''missing.elf'' sOne
       = Some (False, sOne\<lparr>trace := [Wake, ThreadJoin, FlashInvalidate, ThreadStart]\<rparr>)"
    by (simp add: installELF_def fopen_def fsEx_def sOne_def stop_def start_def emit_def Let_def)
  ultimately show ?thesis
    by (simp add: fopen_def fsEx_def fread_def)
qed

text \<open>
  Claim C8: every call of \<^verbatim>\<open>installELF\<close> leaves the thread running if it was
  running. That is so for every call that returns (lemma \<open>installELF_returns\<close>). On
  the directory, and on an image whose reads fail after three bytes, the thread has been
  stopped when the loop is entered, the loop does not exit, and \<^verbatim>\<open>start\<close>, which
  stands after the loop, is not reached.
\<close>

theorem installELF_directory_thread_stays_stopped:
  "mThreadRunning sOne
   \<and> \<not> mThreadRunning (emit ChipErase (stop sOne))
   \<and> writeLoop devAny \<lparr>content = [], tail = ReadError, eof = False, err = False\<rparr> 0
        (emit ChipErase (stop sOne)) = None
   \<and> installELF devAny fsEx ''dir'' sOne = None
   \<and> installELF devAny fsEx ''bad.elf'' sOne = None"
proof -
  have "writeLoop devAny \<lparr>content = [], tail = ReadError, eof = False, err = False\<rparr> 0
        (emit ChipErase (stop sOne)) = None"
  proof (rule ccontr)
    assume "writeLoop devAny \<lparr>content = [], tail = ReadError, eof = False, err = False\<rparr> 0
        (emit ChipErase (stop sOne)) \<noteq> None"
    then obtain r where "writeLoop devAny \<lparr>content = [], tail = ReadError, eof = False, err = False\<rparr> 0
        (emit ChipErase (stop sOne)) = Some r"
      by auto
    from writeLoop_Some_tail [OF this] show False by simp
  qed
  moreover have "installELF devAny fsEx ''dir'' sOne = None"
    by (rule installELF_never_returns [of fsEx _ "[]" ReadError]) (simp_all add: fsEx_def)
  moreover have "installELF devAny fsEx ''bad.elf'' sOne = None"
    by (rule installELF_never_returns [of fsEx _ "[0x7F, 0x45, 0x4C]" ReadError])
       (simp_all add: fsEx_def)
  ultimately show ?thesis
    by (simp add: sOne_def)
qed

text \<open>
  Claim C10: \<^verbatim>\<open>installELF\<close> returns true exactly when \<^verbatim>\<open>fopen\<close> succeeded. Every
  call that returns does so (lemma \<open>installELF_returns\<close>), and an empty file installs
  with success, the erasure of the chip being the only access to the flash device. On
  the directory \<^verbatim>\<open>fopen\<close> succeeds and the call returns nothing.
\<close>

theorem installELF_directory_no_result:
  "fopen fsEx ''dir'' \<noteq> None
   \<and> installELF devAny fsEx ''dir'' sIdle = None
   \<and> installELF devAny fsEx ''empty.elf'' sIdle
       = Some (True, sIdle\<lparr>trace := [ChipErase, FlashInvalidate]\<rparr>)"
proof -
  have "installELF devAny fsEx ''dir'' sIdle = None"
    by (rule installELF_never_returns [of fsEx _ "[]" ReadError]) (simp_all add: fsEx_def)
  moreover have "writeLoop devAny \<lparr>content = [], tail = EndOfFile, eof = False, err = False\<rparr> 0
        (emit ChipErase sIdle)
      = Some (\<lparr>content = [], tail = EndOfFile, eof = True, err = False\<rparr>, 0, emit ChipErase sIdle)"
    by (subst writeLoop_skip [of _ "\<lparr>content = [], tail = EndOfFile, eof = True, err = False\<rparr>"])
       (simp_all add: fread_def writeLoop_eof)
  then have "installELF devAny fsEx ''empty.elf'' sIdle
       = Some (True, sIdle\<lparr>trace := [ChipErase, FlashInvalidate]\<rparr>)"
    by (simp add: installELF_def fopen_def fsEx_def sIdle_def emit_def Let_def)
  ultimately show ?thesis
    by (simp add: fopen_def fsEx_def)
qed

end
